theory Spec2Isabelle
  imports Main "HOL-Library.Product_Lexorder"
begin

section \<open>Placement validation (server.js, validateShipPlacement)\<close>

text \<open>
  A ship record of a \<open>setup_complete\<close> envelope: its \<open>type\<close> string and its
  \<open>positions\<close>, a list of \<open>[row, col]\<close> cells with integer entries.
\<close>

record ship =
  stype :: string
  positions :: "(int \<times> int) list"

text \<open>
  The object literal \<open>expectedShips\<close>, in the order of its keys: kind, length, count.
\<close>

definition expectedShips :: "(string \<times> nat \<times> nat) list" where
  "expectedShips =
     [(''carrier'', 5, 1), (''battleship'', 4, 1), (''cruiser'', 3, 1),
      (''submarine'', 3, 1), (''destroyer'', 2, 1)]"

text \<open>
  \<open>expectedShips\<close> is a plain object, so a property read with a key that is not one
  of its own goes on to \<open>Object.prototype\<close>. The table gives, for each name found
  there, what \<open>.length\<close> of the value is: the number of declared parameters of the
  built-in function (\<open>constructor\<close> is \<open>Object\<close>, of length 1), and nothing for
  \<open>__proto__\<close>, whose value \<open>Object.prototype\<close> has no \<open>length\<close>.
\<close>

definition objectPrototype :: "(string \<times> nat option) list" where
  "objectPrototype =
     [(''constructor'', Some 1), (''hasOwnProperty'', Some 1), (''isPrototypeOf'', Some 1),
      (''propertyIsEnumerable'', Some 1), (''toString'', Some 0),
      (''toLocaleString'', Some 0), (''valueOf'', Some 0),
      (''__defineGetter__'', Some 2), (''__defineSetter__'', Some 2),
      (''__lookupGetter__'', Some 1), (''__lookupSetter__'', Some 1),
      (''__proto__'', None)]"

text \<open>\<open>expectedShips[ship.type]?.length\<close>; \<open>None\<close> is \<open>undefined\<close>.\<close>

definition expectedLength :: "string \<Rightarrow> nat option" where
  "expectedLength t =
     (case map_of expectedShips t of
        Some (len, cnt) \<Rightarrow> Some len
      | None \<Rightarrow> (case map_of objectPrototype t of Some l \<Rightarrow> l | None \<Rightarrow> None))"

text \<open>
  The comparator of \<open>positions.sort\<close>: \<open>a[0] - b[0] || a[1] - b[1]\<close>. The sort is
  stable; it is modelled by a stable insertion sort under the same comparator (an
  element goes before the first one it does not follow).
\<close>

definition compare_pos :: "int \<times> int \<Rightarrow> int \<times> int \<Rightarrow> int" where
  "compare_pos a b = (if fst a - fst b \<noteq> 0 then fst a - fst b else snd a - snd b)"

fun insert_pos :: "int \<times> int \<Rightarrow> (int \<times> int) list \<Rightarrow> (int \<times> int) list" where
  "insert_pos a [] = [a]"
| "insert_pos a (b # bs) = (if compare_pos a b \<le> 0 then a # b # bs else b # insert_pos a bs)"

fun sort_pos :: "(int \<times> int) list \<Rightarrow> (int \<times> int) list" where
  "sort_pos [] = []"
| "sort_pos (a # as) = insert_pos a (sort_pos as)"

text \<open>The loop \<open>for (let i = 1; i < positions.length; i++)\<close> over neighbouring cells.\<close>

fun continuityLoop :: "bool \<Rightarrow> (int \<times> int) list \<Rightarrow> bool" where
  "continuityLoop isHorizontal (prv # cur # rest) =
     (if isHorizontal
      then (if snd cur - snd prv \<noteq> 1 then False
            else continuityLoop isHorizontal (cur # rest))
      else (if fst cur - fst prv \<noteq> 1 then False
            else continuityLoop isHorizontal (cur # rest)))"
| "continuityLoop isHorizontal _ = True"

definition validateShipContinuity :: "(int \<times> int) list \<Rightarrow> bool" where
  "validateShipContinuity ps =
     (if length ps \<le> 1 then True
      else
        let sorted = sort_pos ps;
            isHorizontal = list_all (\<lambda>pos. fst pos = fst (hd sorted)) sorted;
            isVertical = list_all (\<lambda>pos. snd pos = snd (hd sorted)) sorted
        in if \<not> isHorizontal \<and> \<not> isVertical then False
           else continuityLoop isHorizontal sorted)"

text \<open>
  The inner loop over one ship's positions. \<open>occupiedCells\<close> is a set of keys
  \<open>"row,col"\<close>; for integer entries the key determines the cell, so the set holds
  the cells themselves. \<open>None\<close> is the early \<open>return false\<close>.
\<close>

fun positionsLoop :: "(int \<times> int) list \<Rightarrow> (int \<times> int) set \<Rightarrow> (int \<times> int) set option" where
  "positionsLoop [] occupiedCells = Some occupiedCells"
| "positionsLoop (position # rest) occupiedCells =
     (if position \<in> occupiedCells then None
      else
        let occupiedCells' = insert position occupiedCells;
            row = fst position; col = snd position
        in if row < 0 \<or> row \<ge> 10 \<or> col < 0 \<or> col \<ge> 10 then None
           else positionsLoop rest occupiedCells')"

text \<open>
  The outer loop \<open>for (const ship of ships)\<close>. \<open>shipCounts\<close> maps a kind to the
  number of ships of that kind seen so far. Only the five keys of \<open>expectedShips\<close>
  are read back from it after the loop; none of them is a name of \<open>Object.prototype\<close>,
  so what \<open>(shipCounts[ship.type] || 0) + 1\<close> stores under such a name (a string, not
  a number) does not reach the result.
\<close>

fun shipsLoop ::
  "ship list \<Rightarrow> (string \<rightharpoonup> nat) \<Rightarrow> (int \<times> int) set \<Rightarrow> (string \<rightharpoonup> nat) option" where
  "shipsLoop [] shipCounts occupiedCells = Some shipCounts"
| "shipsLoop (s # rest) shipCounts occupiedCells =
     (let shipCounts' =
            shipCounts(stype s \<mapsto> (case shipCounts (stype s) of None \<Rightarrow> 0 | Some n \<Rightarrow> n) + 1)
      in case expectedLength (stype s) of
           None \<Rightarrow> None
         | Some expected \<Rightarrow>
             if expected = 0 \<or> length (positions s) \<noteq> expected then None
             else (case positionsLoop (positions s) occupiedCells of
                     None \<Rightarrow> None
                   | Some occupiedCells' \<Rightarrow>
                       if \<not> validateShipContinuity (positions s) then None
                       else shipsLoop rest shipCounts' occupiedCells'))"

definition validateShipPlacement :: "ship list \<Rightarrow> bool" where
  "validateShipPlacement ships =
     (case shipsLoop ships Map.empty {} of
        None \<Rightarrow> False
      | Some shipCounts \<Rightarrow>
          list_all (\<lambda>(t, len, cnt). shipCounts t = Some cnt) expectedShips)"

text \<open>
  The validator as the specification words it, for comparison with the code. The
  inventory: one carrier of 5 cells, one battleship of 4, one cruiser and one submarine
  of 3, one destroyer of 2.
\<close>

definition spec_inventory :: "(string \<times> nat) list" where
  "spec_inventory =
     [(''carrier'', 5), (''battleship'', 4), (''cruiser'', 3), (''submarine'', 3),
      (''destroyer'', 2)]"

text \<open>
  A ship's cells form a contiguous straight run: they are the cells of one row at
  consecutive columns, or of one column at consecutive rows, as many as the ship has
  entries.
\<close>

definition spec_straightRun :: "(int \<times> int) list \<Rightarrow> bool" where
  "spec_straightRun ps \<longleftrightarrow>
     (\<exists>r c. set ps = (\<lambda>i. (r, c + int i)) ` {..<length ps})
     \<or> (\<exists>r c. set ps = (\<lambda>i. (r + int i, c)) ` {..<length ps})"

text \<open>No cell is claimed by two ships of the list.\<close>

fun spec_noSharedCells :: "ship list \<Rightarrow> bool" where
  "spec_noSharedCells [] = True"
| "spec_noSharedCells (s # rest) =
     ((\<forall>t \<in> set rest. set (positions s) \<inter> set (positions t) = {}) \<and> spec_noSharedCells rest)"

text \<open>
  Exactly five ships, the kinds of the inventory once each, every ship of its kind's
  length, every cell with row and column in 0..9, no cell shared, every ship a run.
\<close>

definition spec_validFleet :: "ship list \<Rightarrow> bool" where
  "spec_validFleet shs \<longleftrightarrow>
     length shs = 5
     \<and> (\<forall>k. count_list (map stype shs) k = count_list (map fst spec_inventory) k)
     \<and> (\<forall>s \<in> set shs. map_of spec_inventory (stype s) = Some (length (positions s)))
     \<and> (\<forall>s \<in> set shs. \<forall>p \<in> set (positions s).
           0 \<le> fst p \<and> fst p \<le> 9 \<and> 0 \<le> snd p \<and> snd p \<le> 9)
     \<and> spec_noSharedCells shs
     \<and> (\<forall>s \<in> set shs. spec_straightRun (positions s))"

text \<open>
  Two notions for the proofs about the loops: the counts after the kinds \<open>ts\<close> have
  been counted into \<open>shipCounts\<close>, and the checks one ship must pass on its own.
\<close>

definition countsAfter :: "(string \<rightharpoonup> nat) \<Rightarrow> string list \<Rightarrow> (string \<rightharpoonup> nat)" where
  "countsAfter shipCounts ts =
     (\<lambda>k. if count_list ts k = 0 then shipCounts k
          else Some (count_list ts k + (case shipCounts k of None \<Rightarrow> 0 | Some n \<Rightarrow> n)))"

definition shipAccepted :: "ship \<Rightarrow> bool" where
  "shipAccepted s \<longleftrightarrow>
     (case expectedLength (stype s) of
        None \<Rightarrow> False
      | Some n \<Rightarrow> n \<noteq> 0 \<and> length (positions s) = n)
     \<and> (\<forall>p \<in> set (positions s). 0 \<le> fst p \<and> fst p < 10 \<and> 0 \<le> snd p \<and> snd p < 10)
     \<and> validateShipContinuity (positions s)"

text \<open>A legal fleet, used as test data: five ships in rows 0 to 4, from column 0.\<close>

definition fleet5 :: "ship list" where
  "fleet5 =
     [\<lparr>stype = ''carrier'', positions = [(0,0), (0,1), (0,2), (0,3), (0,4)]\<rparr>,
      \<lparr>stype = ''battleship'', positions = [(1,0), (1,1), (1,2), (1,3)]\<rparr>,
      \<lparr>stype = ''cruiser'', positions = [(2,0), (2,1), (2,2)]\<rparr>,
      \<lparr>stype = ''submarine'', positions = [(3,0), (3,1), (3,2)]\<rparr>,
      \<lparr>stype = ''destroyer'', positions = [(4,0), (4,1)]\<rparr>]"

section \<open>The session server (server.js, class BattleshipsServer)\<close>

text \<open>
  A connection is the WebSocket object \<open>ws\<close> of the source; an identifier is what
  \<open>uuidv4()\<close> returns. Identifiers are drawn from a counter kept in the server
  state, so that each call gives one never given before.
\<close>

type_synonym conn = nat
type_synonym uuid = nat

text \<open>
  The object \<open>playerData\<close>. The queue, the connection map and a game's pair all hold
  references to the same object, and \<open>createGame\<close> and \<open>handleSetupComplete\<close> write
  to it through one of them; the objects therefore live in a store (\<open>heap\<close> below),
  addressed by the player's \<open>id\<close>, and the other structures hold the \<open>id\<close>. The
  comparisons \<open>p.id === player.id\<close> of the source compare these addresses.
\<close>

record player =
  name :: string
  ws :: conn
  gameId :: "uuid option"
  ships :: "ship list option"
  setupComplete :: bool

datatype game_status = Setup | In_progress | Finished

record game =
  game_id :: uuid
  game_players :: "uuid list"
  currentTurn :: int
  status :: game_status
  winner :: "uuid option"

text \<open>Envelopes from the server to a client, and from a client to the server.\<close>

datatype envelope =
    Game_start uuid string string
  | Opponent_fire "int \<times> int"
  | Shot_result "int \<times> int" string "string option"
  | Turn_change bool
  | Game_end string "string option"
  | Error string

datatype message =
    Join_game string
  | Setup_complete "ship list"
  | Fire "int \<times> int"
  | Fire_result "int \<times> int" string "string option"
  | Other string

text \<open>
  The fields of the server object, the store of player objects, the identifier counter,
  and for each connection whether its \<open>readyState\<close> is \<open>OPEN\<close>.
\<close>

record server =
  waitingPlayers :: "uuid list"
  activeGames :: "uuid \<rightharpoonup> game"
  players :: "conn \<rightharpoonup> uuid"
  heap :: "uuid \<Rightarrow> player"
  nextUuid :: uuid
  readyState :: "conn \<Rightarrow> bool"

text \<open>
  A handler returns the state it leaves and the envelopes it has sent, in order.
  \<open>Throw\<close> is a handler left by a \<open>TypeError\<close> (a property read on \<open>undefined\<close>).
\<close>

datatype 'a outcome = Return 'a | Throw 'a

fun stateOf :: "(server \<times> (conn \<times> envelope) list) outcome \<Rightarrow> server" where
  "stateOf (Return r) = fst r"
| "stateOf (Throw r) = fst r"

fun sentBy :: "(server \<times> (conn \<times> envelope) list) outcome \<Rightarrow> (conn \<times> envelope) list" where
  "sentBy (Return r) = snd r"
| "sentBy (Throw r) = snd r"

definition sendMessage :: "server \<Rightarrow> conn \<Rightarrow> envelope \<Rightarrow> (conn \<times> envelope) list" where
  "sendMessage s c e = (if readyState s c then [(c, e)] else [])"

definition sendError :: "server \<Rightarrow> conn \<Rightarrow> string \<Rightarrow> (conn \<times> envelope) list" where
  "sendError s c m = sendMessage s c (Error m)"

text \<open>\<open>Array.prototype.findIndex\<close>, and an indexed read (\<open>None\<close> is \<open>undefined\<close>).\<close>

fun findIndex :: "('a \<Rightarrow> bool) \<Rightarrow> 'a list \<Rightarrow> int" where
  "findIndex P [] = - 1"
| "findIndex P (x # xs) =
     (if P x then 0 else (let i = findIndex P xs in if i = - 1 then - 1 else i + 1))"

definition at :: "'a list \<Rightarrow> int \<Rightarrow> 'a option" where
  "at xs i = (if 0 \<le> i \<and> i < int (length xs) then Some (xs ! nat i) else None)"

text \<open>\<open>waitingPlayers.splice(waitingIndex, 1)\<close> for an index within the array.\<close>

definition splice1 :: "'a list \<Rightarrow> int \<Rightarrow> 'a list" where
  "splice1 xs i = take (nat i) xs @ drop (nat i + 1) xs"

text \<open>
  The \<open>forEach\<close> that sends each player of a game its \<open>turn_change\<close>.
\<close>

definition announceTurn :: "server \<Rightarrow> game \<Rightarrow> (conn \<times> envelope) list" where
  "announceTurn s g =
     concat (map (\<lambda>(index, p). sendMessage s (ws (heap s p))
                                  (Turn_change (int index = currentTurn g)))
                 (enumerate 0 (game_players g)))"

definition createGame :: "server \<Rightarrow> uuid \<Rightarrow> uuid \<Rightarrow> server \<times> (conn \<times> envelope) list" where
  "createGame s player1 player2 =
     (let gid = nextUuid s;
          g = \<lparr>game_id = gid, game_players = [player1, player2], currentTurn = 0,
               status = Setup, winner = None\<rparr>;
          h1 = (heap s)(player1 := (heap s player1)\<lparr>gameId := Some gid\<rparr>);
          h2 = h1(player2 := (h1 player2)\<lparr>gameId := Some gid\<rparr>);
          s' = s\<lparr>nextUuid := gid + 1, heap := h2, activeGames := (activeGames s)(gid \<mapsto> g)\<rparr>
      in (s', sendMessage s' (ws (heap s' player1))
                 (Game_start gid (name (heap s' player2)) ''first'')
            @ sendMessage s' (ws (heap s' player2))
                 (Game_start gid (name (heap s' player1)) ''second'')))"

definition handleJoinGame :: "server \<Rightarrow> conn \<Rightarrow> string \<Rightarrow> server \<times> (conn \<times> envelope) list" where
  "handleJoinGame s c playerName =
     (let playerId = nextUuid s;
          playerData = \<lparr>name = playerName, ws = c, gameId = None, ships = None,
                        setupComplete = False\<rparr>;
          s1 = s\<lparr>nextUuid := playerId + 1, heap := (heap s)(playerId := playerData),
                 players := (players s)(c \<mapsto> playerId)\<rparr>
      in case waitingPlayers s1 of
           opponent # rest \<Rightarrow> createGame (s1\<lparr>waitingPlayers := rest\<rparr>) playerId opponent
         | [] \<Rightarrow> (s1\<lparr>waitingPlayers := waitingPlayers s1 @ [playerId]\<rparr>, []))"

text \<open>
  \<open>validateShipPlacement\<close> sorts each ship's \<open>positions\<close> in place while it checks
  them, so the fleet stored after a successful validation has them sorted.
\<close>

definition handleSetupComplete ::
  "server \<Rightarrow> conn \<Rightarrow> ship list \<Rightarrow> server \<times> (conn \<times> envelope) list" where
  "handleSetupComplete s c shs =
     (case players s c of
        None \<Rightarrow> (s, sendError s c ''Player not in a game'')
      | Some p \<Rightarrow>
        (case gameId (heap s p) of
           None \<Rightarrow> (s, sendError s c ''Player not in a game'')
         | Some gid \<Rightarrow>
           (case activeGames s gid of
              None \<Rightarrow> (s, sendError s c ''Game not found'')
            | Some g \<Rightarrow>
                if \<not> validateShipPlacement shs then (s, sendError s c ''Invalid ship placement'')
                else
                  let stored = map (\<lambda>sh. sh\<lparr>positions := sort_pos (positions sh)\<rparr>) shs;
                      s1 = s\<lparr>heap := (heap s)(p := (heap s p)\<lparr>ships := Some stored,
                                                                 setupComplete := True\<rparr>)\<rparr>;
                      allReady = list_all (\<lambda>q. setupComplete (heap s1 q)) (game_players g)
                  in if allReady
                     then
                       let g' = g\<lparr>status := In_progress\<rparr>;
                           s2 = s1\<lparr>activeGames := (activeGames s1)(gid \<mapsto> g')\<rparr>
                       in (s2, announceTurn s2 g')
                     else (s1, []))))"

definition handleFire ::
  "server \<Rightarrow> conn \<Rightarrow> int \<times> int \<Rightarrow> (server \<times> (conn \<times> envelope) list) outcome" where
  "handleFire s c coordinates =
     (case players s c of
        None \<Rightarrow> Return (s, sendError s c ''Player not in a game'')
      | Some p \<Rightarrow>
        (case gameId (heap s p) of
           None \<Rightarrow> Return (s, sendError s c ''Player not in a game'')
         | Some gid \<Rightarrow>
           (case activeGames s gid of
              None \<Rightarrow> Return (s, sendError s c ''Game not in progress'')
            | Some g \<Rightarrow>
                if status g \<noteq> In_progress
                then Return (s, sendError s c ''Game not in progress'')
                else
                  let playerIndex = findIndex (\<lambda>q. q = p) (game_players g)
                  in if playerIndex \<noteq> currentTurn g
                     then Return (s, sendError s c ''Not your turn'')
                     else (case at (game_players g) (1 - playerIndex) of
                             None \<Rightarrow> Throw (s, [])
                           | Some opponent \<Rightarrow>
                               Return (s, sendMessage s (ws (heap s opponent))
                                            (Opponent_fire coordinates))))))"

text \<open>The body of \<open>checkAllShipsSunk\<close> is \<open>return false\<close>.\<close>

definition checkAllShipsSunk :: "ship list option \<Rightarrow> conn \<Rightarrow> bool" where
  "checkAllShipsSunk shs defenderWs = False"

text \<open>
  \<open>endGame\<close> writes to the game object stored under the key \<open>gid\<close> and then deletes
  the entry with the key \<open>game.id\<close>.
\<close>

definition endGame ::
  "server \<Rightarrow> uuid \<Rightarrow> game \<Rightarrow> uuid \<Rightarrow> (server \<times> (conn \<times> envelope) list) outcome" where
  "endGame s gid g winnerId =
     (let g' = g\<lparr>status := Finished, winner := Some winnerId\<rparr>;
          s1 = s\<lparr>activeGames := (activeGames s)(gid \<mapsto> g')\<rparr>
      in case (List.find (\<lambda>p. p = winnerId) (game_players g'),
               List.find (\<lambda>p. p \<noteq> winnerId) (game_players g')) of
           (Some w, Some l) \<Rightarrow>
             Return (s1\<lparr>activeGames := (activeGames s1)(game_id g' := None)\<rparr>,
                     sendMessage s1 (ws (heap s1 w)) (Game_end (name (heap s1 w)) None)
                     @ sendMessage s1 (ws (heap s1 l)) (Game_end (name (heap s1 w)) None))
         | (Some w, None) \<Rightarrow>
             Throw (s1, sendMessage s1 (ws (heap s1 w)) (Game_end (name (heap s1 w)) None))
         | (None, _) \<Rightarrow> Throw (s1, []))"

definition handleFireResult ::
  "server \<Rightarrow> conn \<Rightarrow> int \<times> int \<Rightarrow> string \<Rightarrow> string option
     \<Rightarrow> (server \<times> (conn \<times> envelope) list) outcome" where
  "handleFireResult s c coordinates result shipSunk =
     (case players s c of
        None \<Rightarrow> Return (s, sendError s c ''Player not in a game'')
      | Some p \<Rightarrow>
        (case gameId (heap s p) of
           None \<Rightarrow> Return (s, sendError s c ''Player not in a game'')
         | Some gid \<Rightarrow>
           (case activeGames s gid of
              None \<Rightarrow> Return (s, sendError s c ''Game not found'')
            | Some g \<Rightarrow>
                let playerIndex = findIndex (\<lambda>q. q = p) (game_players g)
                in (case at (game_players g) (1 - playerIndex) of
                      None \<Rightarrow> Throw (s, [])
                    | Some opponent \<Rightarrow>
                       (let sent = sendMessage s (ws (heap s opponent))
                                     (Shot_result coordinates result shipSunk)
                        in (if result = ''hit'' \<and> checkAllShipsSunk (ships (heap s p)) c
                            then (case endGame s gid g opponent of
                                    Return r \<Rightarrow> Return (fst r, sent @ snd r)
                                  | Throw r \<Rightarrow> Throw (fst r, sent @ snd r))
                            else
                              (let g' = g\<lparr>currentTurn := 1 - currentTurn g\<rparr>;
                                   s' = s\<lparr>activeGames := (activeGames s)(gid \<mapsto> g')\<rparr>
                               in Return (s', sent @ announceTurn s' g'))))))))"

definition handleDisconnection :: "server \<Rightarrow> conn \<Rightarrow> server \<times> (conn \<times> envelope) list" where
  "handleDisconnection s c =
     (case players s c of
        None \<Rightarrow> (s, [])
      | Some p \<Rightarrow>
          let waitingIndex = findIndex (\<lambda>q. q = p) (waitingPlayers s);
              s1 = (if waitingIndex \<noteq> - 1
                    then s\<lparr>waitingPlayers := splice1 (waitingPlayers s) waitingIndex\<rparr>
                    else s);
              r = (case gameId (heap s1 p) of
                     None \<Rightarrow> (s1, [])
                   | Some gid \<Rightarrow>
                     (case activeGames s1 gid of
                        None \<Rightarrow> (s1, [])
                      | Some g \<Rightarrow>
                          (s1\<lparr>activeGames := (activeGames s1)(gid := None)\<rparr>,
                           (case List.find (\<lambda>q. q \<noteq> p) (game_players g) of
                              None \<Rightarrow> []
                            | Some opponent \<Rightarrow>
                                sendMessage s1 (ws (heap s1 opponent))
                                  (Game_end (name (heap s1 opponent))
                                            (Some ''opponent_disconnected''))))))
          in ((fst r)\<lparr>players := (players (fst r))(c := None)\<rparr>, snd r))"

definition handleClientMessage ::
  "server \<Rightarrow> conn \<Rightarrow> message \<Rightarrow> (server \<times> (conn \<times> envelope) list) outcome" where
  "handleClientMessage s c m =
     (case m of
        Join_game playerName \<Rightarrow> Return (handleJoinGame s c playerName)
      | Setup_complete shs \<Rightarrow> Return (handleSetupComplete s c shs)
      | Fire coordinates \<Rightarrow> handleFire s c coordinates
      | Fire_result coordinates result shipSunk \<Rightarrow>
          handleFireResult s c coordinates result shipSunk
      | Other t \<Rightarrow> Return (s, sendError s c ''Unknown message type''))"

text \<open>
  The callbacks registered in \<open>initializeServer\<close>. The \<open>message\<close> callback catches
  what the handler throws and answers \<open>Invalid message format\<close>; the \<open>close\<close>
  callback runs once the connection has left the state \<open>OPEN\<close>.
\<close>

definition onMessage :: "server \<Rightarrow> conn \<Rightarrow> message \<Rightarrow> server \<times> (conn \<times> envelope) list" where
  "onMessage s c m =
     (case handleClientMessage s c m of
        Return r \<Rightarrow> r
      | Throw r \<Rightarrow> (fst r, snd r @ sendError (fst r) c ''Invalid message format''))"

definition onClose :: "server \<Rightarrow> conn \<Rightarrow> server \<times> (conn \<times> envelope) list" where
  "onClose s c = handleDisconnection (s\<lparr>readyState := (readyState s)(c := False)\<rparr>) c"

datatype event = Message conn message | Close conn

fun step :: "server \<Rightarrow> event \<Rightarrow> server" where
  "step s (Message c m) = fst (onMessage s c m)"
| "step s (Close c) = fst (onClose s c)"

text \<open>The server as the constructor leaves it, with every connection still open.\<close>

definition init :: server where
  "init = \<lparr>waitingPlayers = [], activeGames = Map.empty, players = Map.empty,
           heap = (\<lambda>_. \<lparr>name = [], ws = 0, gameId = None, ships = None,
                         setupComplete = False\<rparr>),
           nextUuid = 0, readyState = (\<lambda>_. True)\<rparr>"

definition run :: "event list \<Rightarrow> server" where
  "run evs = foldl step init evs"

inductive reachable :: "server \<Rightarrow> bool" where
  reachable_init: "reachable init"
| reachable_step: "reachable s \<Longrightarrow> reachable (step s e)"

text \<open>
  What the handlers keep true of the queue, the store and the session map: the queue
  has no duplicates and holds players with no session; a live session is stored under
  an identifier already drawn, and each of its members carries that identifier.
\<close>

definition gameIdInv :: "server \<Rightarrow> bool" where
  "gameIdInv s \<longleftrightarrow>
     distinct (waitingPlayers s)
     \<and> (\<forall>r \<in> set (waitingPlayers s). r < nextUuid s \<and> gameId (heap s r) = None)
     \<and> (\<forall>gid g. activeGames s gid = Some g \<longrightarrow>
           gid < nextUuid s
           \<and> (\<forall>r \<in> set (game_players g). r < nextUuid s \<and> gameId (heap s r) = Some gid))"

text \<open>
  The converse for the sessions in the map: a player object whose \<open>gameId\<close> is the key
  of a session in the map is a member of that session, and every \<open>gameId\<close> is an
  identifier already drawn.
\<close>

definition gameIdLive :: "server \<Rightarrow> bool" where
  "gameIdLive s \<longleftrightarrow>
     (\<forall>p gid. gameId (heap s p) = Some gid \<longrightarrow>
        gid < nextUuid s
        \<and> (\<forall>g. activeGames s gid = Some g \<longrightarrow> p \<in> set (game_players g)))"

text \<open>No session in the map is finished or has a winner.\<close>

definition neverFinished :: "server \<Rightarrow> bool" where
  "neverFinished s \<longleftrightarrow>
     (\<forall>gid g. activeGames s gid = Some g \<longrightarrow> status g \<noteq> Finished \<and> winner g = None)"

text \<open>
  Test data. Player A joins on connection 1 and waits; player B joins on connection 2
  and the two are paired; both submit \<open>fleet5\<close>. In the next two runs A joins
  twice on connection 1, and A closes connection 1 after the pairing. In the last three
  a second \<open>join_game\<close> arrives on a connection whose player is already in the
  session of A and B: on connection 1 or on connection 2 once the session is in
  progress, and on connection 1 while it is still in setup.
\<close>

definition sessionWaiting :: server where
  "sessionWaiting = run [Message 1 (Join_game ''A'')]"

definition sessionSetup :: server where
  "sessionSetup = run [Message 1 (Join_game ''A''), Message 2 (Join_game ''B'')]"

definition sessionInProgress :: server where
  "sessionInProgress =
     run [Message 1 (Join_game ''A''), Message 2 (Join_game ''B''),
          Message 1 (Setup_complete fleet5), Message 2 (Setup_complete fleet5)]"

definition sessionDoubleJoin :: server where
  "sessionDoubleJoin = run [Message 1 (Join_game ''A''), Message 1 (Join_game ''A'')]"

definition sessionAfterClose :: server where
  "sessionAfterClose =
     run [Message 1 (Join_game ''A''), Message 2 (Join_game ''B''), Close 1]"

definition sessionRejoinedFirst :: server where
  "sessionRejoinedFirst =
     run [Message 1 (Join_game ''A''), Message 2 (Join_game ''B''),
          Message 1 (Setup_complete fleet5), Message 2 (Setup_complete fleet5),
          Message 1 (Join_game ''A'')]"

definition sessionRejoinedSecond :: server where
  "sessionRejoinedSecond =
     run [Message 1 (Join_game ''A''), Message 2 (Join_game ''B''),
          Message 1 (Setup_complete fleet5), Message 2 (Setup_complete fleet5),
          Message 2 (Join_game ''B'')]"

definition sessionRejoinedSetup :: server where
  "sessionRejoinedSetup =
     run [Message 1 (Join_game ''A''), Message 2 (Join_game ''B''),
          Message 1 (Join_game ''A'')]"

section \<open>Properties of the placement validator\<close>

lemma validate_fleet5: "validateShipPlacement fleet5"
  by (simp add: validateShipPlacement_def fleet5_def expectedShips_def expectedLength_def
      validateShipContinuity_def compare_pos_def Let_def)

text \<open>
  C3. The validator is to accept exactly the fleets of five ships, one of each kind.
  It accepts a sixth ship whose \<open>type\<close> is \<open>constructor\<close> and which has one cell:
  the lookup \<open>expectedShips["constructor"]\<close> finds \<open>Object\<close>, whose \<open>length\<close> is 1,
  and the final count check reads the five proper kinds only.
\<close>

theorem validateShipPlacement_accepts_six_ships:
  "validateShipPlacement (fleet5 @ [\<lparr>stype = ''constructor'', positions = [(9,9)]\<rparr>])
   \<and> length (fleet5 @ [\<lparr>stype = ''constructor'', positions = [(9,9)]\<rparr>]) = 6"
  by (simp add: validateShipPlacement_def fleet5_def expectedShips_def expectedLength_def
      objectPrototype_def validateShipContinuity_def compare_pos_def Let_def)

subsection \<open>The validator on lists without inherited names\<close>

lemma compare_pos_le: "compare_pos a b \<le> 0 \<longleftrightarrow> a \<le> b"
  by (cases a; cases b) (auto simp: compare_pos_def less_eq_prod_def)

lemma insert_pos_insort: "insert_pos a bs = insort a bs"
  by (induction bs) (simp_all add: compare_pos_le)

lemma sort_pos_sort: "sort_pos ps = sort ps"
  by (induction ps) (simp_all add: insert_pos_insort sort_key_def)

lemma positionsLoop_iff:
  "positionsLoop ps occ = Some occ' \<longleftrightarrow>
     distinct ps \<and> set ps \<inter> occ = {}
     \<and> (\<forall>p \<in> set ps. 0 \<le> fst p \<and> fst p < 10 \<and> 0 \<le> snd p \<and> snd p < 10)
     \<and> occ' = occ \<union> set ps"
  by (induction ps arbitrary: occ) (auto simp: Let_def)

lemma countsAfter_Cons:
  "countsAfter (m(t \<mapsto> (case m t of None \<Rightarrow> 0 | Some n \<Rightarrow> n) + 1)) ts = countsAfter m (t # ts)"
  by (rule ext) (simp add: countsAfter_def)

lemma shipsLoop_iff:
  "shipsLoop shs m occ = Some m' \<longleftrightarrow>
     (\<forall>s \<in> set shs. shipAccepted s)
     \<and> distinct (concat (map positions shs))
     \<and> set (concat (map positions shs)) \<inter> occ = {}
     \<and> m' = countsAfter m (map stype shs)"
proof (induction shs arbitrary: m occ)
  case Nil
  show ?case by (auto simp: countsAfter_def)
next
  case (Cons s rest)
  show ?case
  proof (cases "expectedLength (stype s)")
    case None
    then show ?thesis by (simp add: shipAccepted_def)
  next
    case (Some n)
    show ?thesis
    proof (cases "n = 0 \<or> length (positions s) \<noteq> n")
      case True
      with Some show ?thesis by (auto simp: shipAccepted_def)
    next
      case False
      show ?thesis
      proof (cases "positionsLoop (positions s) occ")
        case None
        with Some False positionsLoop_iff [of "positions s" occ] show ?thesis
          apply (simp add: shipAccepted_def)
          by (metis (no_types, lifting) disjoint_iff inf_sup_distrib2 Un_iff)
      next
        case (Some occ1)
        note pl = Some
        then have occ1: "distinct (positions s)" "set (positions s) \<inter> occ = {}"
          "\<forall>p \<in> set (positions s). 0 \<le> fst p \<and> fst p < 10 \<and> 0 \<le> snd p \<and> snd p < 10"
          "occ1 = occ \<union> set (positions s)"
          by (simp_all add: positionsLoop_iff)
        show ?thesis
        proof (cases "validateShipContinuity (positions s)")
          case False
          with \<open>expectedLength (stype s) = Some n\<close> \<open>\<not> (n = 0 \<or> length (positions s) \<noteq> n)\<close> pl
          show ?thesis by (simp add: shipAccepted_def)
        next
          case True
          have acc: "shipAccepted s"
            using True occ1(3) \<open>expectedLength (stype s) = Some n\<close>
              \<open>\<not> (n = 0 \<or> length (positions s) \<noteq> n)\<close>
            by (simp add: shipAccepted_def)
          have step: "shipsLoop (s # rest) m occ =
              shipsLoop rest (m(stype s \<mapsto> (case m (stype s) of None \<Rightarrow> 0 | Some n \<Rightarrow> n) + 1)) occ1"
            using True \<open>expectedLength (stype s) = Some n\<close>
              \<open>\<not> (n = 0 \<or> length (positions s) \<noteq> n)\<close> pl
            by (simp add: Let_def)
          show ?thesis
            unfolding step Cons.IH countsAfter_Cons
            using acc occ1 by auto
        qed
      qed
    qed
  qed
qed

lemma continuityLoop_nth:
  "continuityLoop h xs \<longleftrightarrow>
     (\<forall>i. Suc i < length xs \<longrightarrow>
        (if h then snd (xs ! Suc i) - snd (xs ! i) = 1 else fst (xs ! Suc i) - fst (xs ! i) = 1))"
proof (induction h xs rule: continuityLoop.induct)
  case (1 h p c rest)
  have split: "(\<forall>i. Suc i < length (p # c # rest) \<longrightarrow> Q i)
      \<longleftrightarrow> Q 0 \<and> (\<forall>i. Suc i < length (c # rest) \<longrightarrow> Q (Suc i))" for Q
    by (auto simp: less_Suc_eq_0_disj)
  show ?case
    using 1 by (subst split) (cases h; auto)
qed simp_all

lemma run_rows:
  assumes "\<forall>p \<in> set xs. fst p = r"
    and "\<forall>i. Suc i < length xs \<longrightarrow> snd (xs ! Suc i) - snd (xs ! i) = 1"
  shows "xs = map (\<lambda>i. (r, snd (hd xs) + int i)) [0..<length xs]"
proof (rule nth_equalityI)
  show "length xs = length (map (\<lambda>i. (r, snd (hd xs) + int i)) [0..<length xs])" by simp
next
  fix i assume "i < length xs"
  then have "xs ! i = (r, snd (hd xs) + int i)"
  proof (induction i)
    case 0
    then show ?case using assms(1) by (cases xs) (auto simp: prod_eq_iff)
  next
    case (Suc i)
    then have "xs ! i = (r, snd (hd xs) + int i)" by simp
    moreover have "snd (xs ! Suc i) - snd (xs ! i) = 1" using assms(2) Suc.prems by simp
    moreover have "fst (xs ! Suc i) = r" using assms(1) Suc.prems by simp
    ultimately show ?case by (simp add: prod_eq_iff)
  qed
  then show "xs ! i = map (\<lambda>i. (r, snd (hd xs) + int i)) [0..<length xs] ! i"
    using \<open>i < length xs\<close> by simp
qed

lemma run_cols:
  assumes "\<forall>p \<in> set xs. snd p = c"
    and "\<forall>i. Suc i < length xs \<longrightarrow> fst (xs ! Suc i) - fst (xs ! i) = 1"
  shows "xs = map (\<lambda>i. (fst (hd xs) + int i, c)) [0..<length xs]"
proof (rule nth_equalityI)
  show "length xs = length (map (\<lambda>i. (fst (hd xs) + int i, c)) [0..<length xs])" by simp
next
  fix i assume "i < length xs"
  then have "xs ! i = (fst (hd xs) + int i, c)"
  proof (induction i)
    case 0
    then show ?case using assms(1) by (cases xs) (auto simp: prod_eq_iff)
  next
    case (Suc i)
    then have "xs ! i = (fst (hd xs) + int i, c)" by simp
    moreover have "fst (xs ! Suc i) - fst (xs ! i) = 1" using assms(2) Suc.prems by simp
    moreover have "snd (xs ! Suc i) = c" using assms(1) Suc.prems by simp
    ultimately show ?case by (simp add: prod_eq_iff)
  qed
  then show "xs ! i = map (\<lambda>i. (fst (hd xs) + int i, c)) [0..<length xs] ! i"
    using \<open>i < length xs\<close> by simp
qed

lemma sorted_row: "sorted (map (\<lambda>i. (r::int, c + int i)) [0..<n])"
  by (simp add: sorted_iff_nth_mono less_eq_prod_def)

lemma sorted_col: "sorted (map (\<lambda>i. (r + int i, c::int)) [0..<n])"
  by (auto simp: sorted_iff_nth_mono less_eq_prod_def)

lemma distinct_row: "distinct (map (\<lambda>i. (r::int, c + int i)) [0..<n])"
  by (simp add: distinct_map inj_on_def)

lemma distinct_col: "distinct (map (\<lambda>i. (r + int i, c::int)) [0..<n])"
  by (simp add: distinct_map inj_on_def)

lemma sorted_is_row:
  assumes "distinct ps" and "set ps = (\<lambda>i. (r::int, c + int i)) ` {..<length ps}"
  shows "sort ps = map (\<lambda>i. (r, c + int i)) [0..<length ps]"
proof (rule sorted_distinct_set_unique)
  show "set (sort ps) = set (map (\<lambda>i. (r, c + int i)) [0..<length ps])"
    using assms(2) by (simp add: lessThan_atLeast0)
next
  show "sorted (sort ps)" by simp
next
  show "distinct (sort ps)" using assms(1) by simp
next
  show "sorted (map (\<lambda>i. (r, c + int i)) [0..<length ps])" by (rule sorted_row)
next
  show "distinct (map (\<lambda>i. (r, c + int i)) [0..<length ps])" by (rule distinct_row)
qed

lemma sorted_is_col:
  assumes "distinct ps" and "set ps = (\<lambda>i. (r + int i, c::int)) ` {..<length ps}"
  shows "sort ps = map (\<lambda>i. (r + int i, c)) [0..<length ps]"
proof (rule sorted_distinct_set_unique)
  show "set (sort ps) = set (map (\<lambda>i. (r + int i, c)) [0..<length ps])"
    using assms(2) by (simp add: lessThan_atLeast0)
next
  show "sorted (sort ps)" by simp
next
  show "distinct (sort ps)" using assms(1) by simp
next
  show "sorted (map (\<lambda>i. (r + int i, c)) [0..<length ps])" by (rule sorted_col)
next
  show "distinct (map (\<lambda>i. (r + int i, c)) [0..<length ps])" by (rule distinct_col)
qed

lemma continuity_iff_run:
  assumes "distinct ps"
  shows "validateShipContinuity ps \<longleftrightarrow> spec_straightRun ps"
proof (cases "length ps \<le> 1")
  case True
  then consider "ps = []" | p where "ps = [p]"
    by (cases ps) (auto simp: Suc_le_eq)
  then show ?thesis
  proof cases
    case 1
    then show ?thesis by (simp add: validateShipContinuity_def spec_straightRun_def)
  next
    case 2
    have "set [p] = (\<lambda>i. (fst p, snd p + int i)) ` {..<length [p]}"
      by (auto simp: lessThan_Suc)
    then have "spec_straightRun [p]" unfolding spec_straightRun_def by blast
    with 2 show ?thesis by (simp add: validateShipContinuity_def)
  qed
next
  case False
  define xs where "xs = sort ps"
  have len: "length xs = length ps" and set: "set xs = set ps"
    by (simp_all add: xs_def)
  have ne: "xs \<noteq> []" using len False by auto
  have pos: "0 < length ps" "1 < length ps" using False by auto
  define H where "H = list_all (\<lambda>pos. fst pos = fst (hd xs)) xs"
  define V where "V = list_all (\<lambda>pos. snd pos = snd (hd xs)) xs"
  have val: "validateShipContinuity ps \<longleftrightarrow> (H \<or> V) \<and> continuityLoop H xs"
    using False by (auto simp: validateShipContinuity_def Let_def sort_pos_sort xs_def H_def V_def)
  show ?thesis
  proof
    assume "validateShipContinuity ps"
    with val have hv: "H \<or> V" and loop: "continuityLoop H xs" by simp_all
    show "spec_straightRun ps"
    proof (cases H)
      case True
      then have "\<forall>p \<in> set xs. fst p = fst (hd xs)" by (simp add: H_def list_all_iff)
      moreover have "\<forall>i. Suc i < length xs \<longrightarrow> snd (xs ! Suc i) - snd (xs ! i) = 1"
        using loop True by (simp add: continuityLoop_nth)
      ultimately have "xs = map (\<lambda>i. (fst (hd xs), snd (hd xs) + int i)) [0..<length xs]"
        by (rule run_rows)
      then have "set xs = (\<lambda>i. (fst (hd xs), snd (hd xs) + int i)) ` {..<length xs}"
        by (metis set_map set_upt lessThan_atLeast0)
      then show ?thesis unfolding spec_straightRun_def using set len by metis
    next
      case False
      with hv have V by simp
      then have "\<forall>p \<in> set xs. snd p = snd (hd xs)" by (simp add: V_def list_all_iff)
      moreover have "\<forall>i. Suc i < length xs \<longrightarrow> fst (xs ! Suc i) - fst (xs ! i) = 1"
        using loop False by (simp add: continuityLoop_nth)
      ultimately have "xs = map (\<lambda>i. (fst (hd xs) + int i, snd (hd xs))) [0..<length xs]"
        by (rule run_cols)
      then have "set xs = (\<lambda>i. (fst (hd xs) + int i, snd (hd xs))) ` {..<length xs}"
        by (metis set_map set_upt lessThan_atLeast0)
      then show ?thesis unfolding spec_straightRun_def using set len by metis
    qed
  next
    assume "spec_straightRun ps"
    then consider r c where "set ps = (\<lambda>i. (r, c + int i)) ` {..<length ps}"
      | r c where "set ps = (\<lambda>i. (r + int i, c)) ` {..<length ps}"
      unfolding spec_straightRun_def by blast
    then show "validateShipContinuity ps"
    proof cases
      case 1
      have xs: "xs = map (\<lambda>i. (r, c + int i)) [0..<length ps]"
        unfolding xs_def using assms 1 by (rule sorted_is_row)
      have "hd xs = xs ! 0" using ne by (simp add: hd_conv_nth)
      also have "xs ! 0 = (r, c)" using pos by (subst xs, subst nth_map) simp_all
      finally have hd: "hd xs = (r, c)" .
      have "\<forall>p \<in> set xs. fst p = r" by (subst xs) auto
      then have H using hd by (simp add: H_def list_all_iff)
      moreover have "continuityLoop True xs"
        by (subst xs) (simp add: continuityLoop_nth)
      ultimately show ?thesis using val by simp
    next
      case 2
      have xs: "xs = map (\<lambda>i. (r + int i, c)) [0..<length ps]"
        unfolding xs_def using assms 2 by (rule sorted_is_col)
      have "hd xs = xs ! 0" using ne by (simp add: hd_conv_nth)
      also have "xs ! 0 = (r, c)" using pos by (subst xs, subst nth_map) simp_all
      finally have hd: "hd xs = (r, c)" .
      have "xs ! 1 = (r + 1, c)" using pos by (subst xs, subst nth_map) simp_all
      moreover have "xs ! 1 \<in> set xs" using False len by simp
      ultimately have "(r + 1, c) \<in> set xs" by simp
      then have "\<not> H" using hd by (auto simp: H_def list_all_iff intro!: bexI [of _ "(r + 1, c)"])
      moreover have "\<forall>p \<in> set xs. snd p = c" by (subst xs) auto
      then have V using hd by (simp add: V_def list_all_iff)
      moreover have "continuityLoop False xs"
        by (subst xs) (simp add: continuityLoop_nth)
      ultimately show ?thesis using val by simp
    qed
  qed
qed

lemma countsAfter_empty:
  "countsAfter Map.empty ts k = Some c \<longleftrightarrow> count_list ts k = c \<and> c \<noteq> 0"
  by (auto simp: countsAfter_def)

lemma validate_iff_loop:
  "validateShipPlacement shs \<longleftrightarrow>
     (\<forall>s \<in> set shs. shipAccepted s)
     \<and> distinct (concat (map positions shs))
     \<and> (\<forall>k \<in> set (map fst expectedShips). count_list (map stype shs) k = 1)"
proof -
  have "shipsLoop shs Map.empty {} = Some (countsAfter Map.empty (map stype shs))
        \<or> shipsLoop shs Map.empty {} = None"
    using shipsLoop_iff [of shs Map.empty "{}"] by (cases "shipsLoop shs Map.empty {}") auto
  moreover have "shipsLoop shs Map.empty {} \<noteq> None \<longleftrightarrow>
       (\<forall>s \<in> set shs. shipAccepted s) \<and> distinct (concat (map positions shs))"
    using shipsLoop_iff [of shs Map.empty "{}"] by auto
  ultimately show ?thesis
    by (auto simp: validateShipPlacement_def expectedShips_def countsAfter_empty)
qed

lemma distinct_cells_iff:
  "distinct (concat (map positions shs)) \<longleftrightarrow>
     (\<forall>s \<in> set shs. distinct (positions s)) \<and> spec_noSharedCells shs"
  by (induction shs) auto

lemma straightRun_distinct: "spec_straightRun ps \<Longrightarrow> distinct ps"
proof -
  assume "spec_straightRun ps"
  then consider r c where "set ps = (\<lambda>i. (r, c + int i)) ` {..<length ps}"
    | r c where "set ps = (\<lambda>i. (r + int i, c)) ` {..<length ps}"
    unfolding spec_straightRun_def by blast
  then have "card (set ps) = length ps"
  proof cases
    case 1
    have "inj_on (\<lambda>i. (r, c + int i)) {..<length ps}" by (simp add: inj_on_def)
    then show ?thesis using 1 by (simp add: card_image)
  next
    case 2
    have "inj_on (\<lambda>i. (r + int i, c)) {..<length ps}" by (simp add: inj_on_def)
    then show ?thesis using 2 by (simp add: card_image)
  qed
  then show ?thesis by (rule card_distinct)
qed

lemma inventory_lookup:
  "map_of spec_inventory t = Some n \<longleftrightarrow> (\<exists>cnt. map_of expectedShips t = Some (n, cnt))"
  by (auto simp: spec_inventory_def expectedShips_def)

lemma inventory_kinds: "map fst spec_inventory = map fst expectedShips"
  by (simp add: spec_inventory_def expectedShips_def)

lemma inventory_nonzero: "map_of spec_inventory t = Some n \<Longrightarrow> n \<noteq> 0"
  by (auto simp: spec_inventory_def split: if_splits)

lemma expectedLength_own:
  "map_of objectPrototype t = None \<Longrightarrow> expectedLength t = map_of spec_inventory t"
  by (auto simp: expectedLength_def spec_inventory_def expectedShips_def)

lemma expectedLength_kind:
  "map_of spec_inventory t = Some n \<Longrightarrow> expectedLength t = Some n"
  by (auto simp: expectedLength_def spec_inventory_def expectedShips_def split: if_splits)

lemma inventory_count:
  "count_list (map fst spec_inventory) k = (if k \<in> set (map fst spec_inventory) then 1 else 0)"
  by (simp add: spec_inventory_def)

lemma inventory_card: "card (set (map fst spec_inventory)) = 5"
  by (simp add: spec_inventory_def)

text \<open>
  Apart from that lookup the validator is the one specified: on a list in which no ship's
  \<open>type\<close> is a property name of \<open>Object.prototype\<close>, it accepts exactly the
  fleets that \<open>spec_validFleet\<close> describes.
\<close>

theorem validateShipPlacement_own_kinds:
  assumes own: "\<forall>s \<in> set shs. map_of objectPrototype (stype s) = None"
  shows "validateShipPlacement shs \<longleftrightarrow> spec_validFleet shs"
proof
  let ?types = "map stype shs"
  let ?kinds = "map fst spec_inventory"
  assume "validateShipPlacement shs"
  then have acc: "\<forall>s \<in> set shs. shipAccepted s"
    and dis: "distinct (concat (map positions shs))"
    and cnt: "\<forall>k \<in> set ?kinds. count_list ?types k = 1"
    by (simp_all add: validate_iff_loop inventory_kinds)
  have len_s: "map_of spec_inventory (stype s) = Some (length (positions s))"
    if "s \<in> set shs" for s
    using acc own that by (auto simp: shipAccepted_def expectedLength_own split: option.splits)
  have kinds: "set ?types \<subseteq> set ?kinds"
  proof
    fix t assume "t \<in> set ?types"
    then obtain s where "s \<in> set shs" "t = stype s" by auto
    with len_s have "map_of spec_inventory t = Some (length (positions s))" by simp
    then have "(t, length (positions s)) \<in> set spec_inventory" by (rule map_of_SomeD)
    then show "t \<in> set ?kinds" by force
  qed
  have counts: "count_list ?types k = count_list ?kinds k" for k
  proof (cases "k \<in> set ?kinds")
    case True
    with cnt have "count_list ?types k = 1" by blast
    with True show ?thesis by (simp only: inventory_count if_True)
  next
    case False
    with kinds have "k \<notin> set ?types" by blast
    then have "count_list ?types k = 0" by (metis count_list_0_iff)
    with False show ?thesis by (simp add: inventory_count)
  qed
  have "sum (count_list ?types) (set ?kinds) = length ?types"
    using kinds by (rule sum_count_set) simp
  moreover have "sum (count_list ?types) (set ?kinds) = sum (\<lambda>_. 1) (set ?kinds)"
    by (rule sum.cong [OF refl]) (use cnt in blast)
  moreover have "sum (\<lambda>_. 1::nat) (set ?kinds) = card (set ?kinds)"
    by (simp only: sum_constant mult_1_right of_nat_id)
  ultimately have len: "length shs = 5" using inventory_card by (metis length_map)
  have bounds: "\<forall>s \<in> set shs. \<forall>p \<in> set (positions s).
      0 \<le> fst p \<and> fst p \<le> 9 \<and> 0 \<le> snd p \<and> snd p \<le> 9"
    using acc by (fastforce simp: shipAccepted_def)
  have each: "\<forall>s \<in> set shs. distinct (positions s)" and shared: "spec_noSharedCells shs"
    using dis by (simp_all add: distinct_cells_iff)
  have runs: "\<forall>s \<in> set shs. spec_straightRun (positions s)"
    using acc each by (auto simp: shipAccepted_def continuity_iff_run)
  show "spec_validFleet shs"
    unfolding spec_validFleet_def using len counts len_s bounds shared runs by blast
next
  let ?types = "map stype shs"
  let ?kinds = "map fst spec_inventory"
  assume spec: "spec_validFleet shs"
  then have counts: "\<forall>k. count_list ?types k = count_list ?kinds k"
    and len_s: "\<forall>s \<in> set shs. map_of spec_inventory (stype s) = Some (length (positions s))"
    and bounds: "\<forall>s \<in> set shs. \<forall>p \<in> set (positions s).
      0 \<le> fst p \<and> fst p \<le> 9 \<and> 0 \<le> snd p \<and> snd p \<le> 9"
    and shared: "spec_noSharedCells shs"
    and runs: "\<forall>s \<in> set shs. spec_straightRun (positions s)"
    by (simp_all add: spec_validFleet_def)
  have each: "\<forall>s \<in> set shs. distinct (positions s)"
    using runs by (simp add: straightRun_distinct)
  have "shipAccepted s" if "s \<in> set shs" for s
  proof -
    have l: "map_of spec_inventory (stype s) = Some (length (positions s))"
      using len_s that by simp
    then have "expectedLength (stype s) = Some (length (positions s))"
      by (rule expectedLength_kind)
    moreover have "length (positions s) \<noteq> 0" using l by (rule inventory_nonzero)
    moreover have "\<forall>p \<in> set (positions s). 0 \<le> fst p \<and> fst p < 10 \<and> 0 \<le> snd p \<and> snd p < 10"
      using bounds that by fastforce
    moreover have "validateShipContinuity (positions s)"
      using runs each that by (simp add: continuity_iff_run)
    ultimately show ?thesis by (simp add: shipAccepted_def)
  qed
  moreover have "distinct (concat (map positions shs))"
    using each shared by (simp add: distinct_cells_iff)
  moreover have "\<forall>k \<in> set (map fst expectedShips). count_list ?types k = 1"
    using counts by (simp add: inventory_count inventory_kinds [symmetric])
  ultimately show "validateShipPlacement shs"
    by (simp add: validate_iff_loop)
qed

section \<open>Properties of the session server\<close>

lemmas server_defs =
  run_def init_def onMessage_def onClose_def handleClientMessage_def handleJoinGame_def
  createGame_def handleSetupComplete_def handleFire_def handleFireResult_def
  handleDisconnection_def sendMessage_def sendError_def announceTurn_def at_def splice1_def
  checkAllShipsSunk_def Let_def

lemmas session_defs =
  sessionWaiting_def sessionSetup_def sessionInProgress_def sessionDoubleJoin_def
  sessionAfterClose_def sessionRejoinedFirst_def sessionRejoinedSecond_def
  sessionRejoinedSetup_def

subsection \<open>Arrays of two players\<close>

lemma at_pair:
  "at [p0, p1] i = (if i = 0 then Some p0 else if i = 1 then Some p1 else None)"
  by (auto simp: at_def nat_eq_iff2)

lemma announceTurn_pair:
  "game_players g = [p0, p1] \<Longrightarrow>
   announceTurn s g =
     sendMessage s (ws (heap s p0)) (Turn_change (0 = currentTurn g))
     @ sendMessage s (ws (heap s p1)) (Turn_change (1 = currentTurn g))"
  by (simp add: announceTurn_def enumerate_eq_zip upt_rec)

subsection \<open>Pairing\<close>

text \<open>
  C2, as stated: on a join with a non-empty queue the dequeued waiter gets index 0 and
  \<open>turnOrder\<close> \<open>first\<close>, the new arrival index 1 and \<open>second\<close>. The code calls
  \<open>createGame(playerData, opponent)\<close>, with the new arrival as \<open>player1\<close>. When B
  joins on connection 2 while A waits on connection 1, the session's pair is B
  (identifier 1) then A (identifier 0), and A, the waiter, is sent \<open>second\<close>.
\<close>

theorem join_waiter_moves_second:
  "waitingPlayers sessionWaiting = [0]
   \<and> ws (heap sessionWaiting 0) = 1
   \<and> snd (handleJoinGame sessionWaiting 2 ''B'') =
       [(2, Game_start 2 ''A'' ''first''), (1, Game_start 2 ''B'' ''second'')]
   \<and> map_option game_players (activeGames (fst (handleJoinGame sessionWaiting 2 ''B'')) 2) =
       Some [1, 0]"
  by (simp add: session_defs server_defs)

text \<open>
  C2, amended: on a join with a non-empty queue the oldest waiter \<open>w\<close> is dequeued and
  a session in state setup is formed whose pair is the new arrival (index 0) followed by
  the waiter (index 1), with \<open>currentTurn\<close> 0; the new arrival is sent \<open>game_start\<close>
  with \<open>turnOrder\<close> \<open>first\<close> and the waiter's name, the waiter \<open>game_start\<close> with
  \<open>second\<close> and the new arrival's name. Both connections are open, and the waiter's
  identifier is one drawn earlier.
\<close>

theorem handleJoinGame_pairs_arrival_first:
  assumes "waitingPlayers s = w # rest" and "w \<noteq> nextUuid s"
    and "readyState s c" and "readyState s (ws (heap s w))"
  shows "waitingPlayers (fst (handleJoinGame s c nm)) = rest
     \<and> players (fst (handleJoinGame s c nm)) c = Some (nextUuid s)
     \<and> ws (heap (fst (handleJoinGame s c nm)) (nextUuid s)) = c
     \<and> activeGames (fst (handleJoinGame s c nm)) (nextUuid s + 1) =
         Some \<lparr>game_id = nextUuid s + 1, game_players = [nextUuid s, w], currentTurn = 0,
               status = Setup, winner = None\<rparr>
     \<and> snd (handleJoinGame s c nm) =
         [(c, Game_start (nextUuid s + 1) (name (heap s w)) ''first''),
          (ws (heap s w), Game_start (nextUuid s + 1) nm ''second'')]"
  using assms by (simp add: handleJoinGame_def createGame_def Let_def sendMessage_def)

theorem handleJoinGame_pairs_arrival_first_witness:
  "waitingPlayers sessionWaiting = 0 # [] \<and> 0 \<noteq> nextUuid sessionWaiting
   \<and> readyState sessionWaiting 2 \<and> readyState sessionWaiting (ws (heap sessionWaiting 0))
   \<and> activeGames (fst (handleJoinGame sessionWaiting 2 ''B'')) (nextUuid sessionWaiting + 1) =
         Some \<lparr>game_id = nextUuid sessionWaiting + 1,
               game_players = [nextUuid sessionWaiting, 0], currentTurn = 0,
               status = Setup, winner = None\<rparr>
   \<and> snd (handleJoinGame sessionWaiting 2 ''B'') =
         [(2, Game_start (nextUuid sessionWaiting + 1) (name (heap sessionWaiting 0)) ''first''),
          (ws (heap sessionWaiting 0),
           Game_start (nextUuid sessionWaiting + 1) ''B'' ''second'')]"
proof -
  have h1: "waitingPlayers sessionWaiting = 0 # []"
    by (simp add: session_defs server_defs)
  have h2: "0 \<noteq> nextUuid sessionWaiting"
    by (simp add: session_defs server_defs)
  have h3: "readyState sessionWaiting 2"
    by (simp add: session_defs server_defs)
  have h4: "readyState sessionWaiting (ws (heap sessionWaiting 0))"
    by (simp add: session_defs server_defs)
  show ?thesis
    using h1 h2 h3 h4 handleJoinGame_pairs_arrival_first [OF h1 h2 h3 h4, of "''B''"]
    by blast
qed

text \<open>
  C8. A connection is to carry at most one Player, and a second \<open>join_game\<close> on it is
  to create no second one. \<open>handleJoinGame\<close> has no test for a player already
  registered on the connection: after two joins on connection 1 there are two player
  objects (identifiers 0 and 1) with that connection, the first was taken from the
  queue as the opponent of the second, and they form a session.
\<close>

theorem second_join_creates_second_player:
  "ws (heap sessionDoubleJoin 0) = 1 \<and> ws (heap sessionDoubleJoin 1) = 1
   \<and> players sessionDoubleJoin 1 = Some 1
   \<and> activeGames sessionDoubleJoin 2 =
       Some \<lparr>game_id = 2, game_players = [1, 0], currentTurn = 0, status = Setup,
             winner = None\<rparr>"
  by (simp add: session_defs server_defs)

subsection \<open>Firing\<close>

lemma handleFire_state: "stateOf (handleFire s c xy) = s"
  by (simp add: handleFire_def Let_def split: option.splits)

text \<open>
  C5. A \<open>fire\<close> from a player of a session that is not in progress, or whose index in
  the session's pair is not \<open>currentTurn\<close>, is answered with one \<open>error\<close> envelope
  to the sender, and the server state, \<open>currentTurn\<close> included, is the one before.
\<close>

theorem handleFire_rejects_out_of_turn:
  assumes "players s c = Some p" "gameId (heap s p) = Some gid" "activeGames s gid = Some g"
    and "readyState s c"
    and "status g \<noteq> In_progress \<or> findIndex (\<lambda>q. q = p) (game_players g) \<noteq> currentTurn g"
  shows "handleFire s c xy =
     Return (s, [(c, Error (if status g \<noteq> In_progress then ''Game not in progress''
                            else ''Not your turn''))])"
  using assms by (auto simp: handleFire_def sendError_def sendMessage_def Let_def)

theorem handleFire_rejects_out_of_turn_witness:
  "players sessionInProgress 1 = Some 0 \<and> gameId (heap sessionInProgress 0) = Some 2
   \<and> activeGames sessionInProgress 2 =
       Some \<lparr>game_id = 2, game_players = [1, 0], currentTurn = 0, status = In_progress,
             winner = None\<rparr>
   \<and> readyState sessionInProgress 1
   \<and> handleFire sessionInProgress 1 (4, 1) =
       Return (sessionInProgress, [(1, Error ''Not your turn'')])"
proof -
  let ?g = "\<lparr>game_id = 2, game_players = [1, 0], currentTurn = 0, status = In_progress,
             winner = None\<rparr>"
  have h1: "players sessionInProgress 1 = Some 0"
    by (simp add: session_defs server_defs validate_fleet5)
  have h2: "gameId (heap sessionInProgress 0) = Some 2"
    by (simp add: session_defs server_defs validate_fleet5)
  have h3: "activeGames sessionInProgress 2 = Some ?g"
    by (simp add: session_defs server_defs validate_fleet5)
  have h4: "readyState sessionInProgress 1"
    by (simp add: session_defs server_defs validate_fleet5)
  have h5: "status ?g \<noteq> In_progress
            \<or> findIndex (\<lambda>q. q = 0) (game_players ?g) \<noteq> currentTurn ?g"
    by simp
  show ?thesis
    using h1 h2 h3 h4 handleFire_rejects_out_of_turn [OF h1 h2 h3 h4 h5, of "(4, 1)"]
    by simp
qed

text \<open>
  C9. No \<open>fire\<close> message changes the server state, whether it is handled by
  \<open>handleFire\<close> alone or through the \<open>message\<close> callback, so the same message
  handled again has the same outcome; and a \<open>fire\<close> from the member of an in-progress
  session whose index is \<open>currentTurn\<close> sends one \<open>opponent_fire\<close> with the
  coordinates to the other member, whose connection is open.
\<close>

theorem handleFire_mutates_nothing:
  "stateOf (handleFire s c xy) = s
   \<and> fst (onMessage s c (Fire xy)) = s
   \<and> handleFire (stateOf (handleFire s c xy)) c xy = handleFire s c xy
   \<and> (players s c = Some p \<and> gameId (heap s p) = Some gid \<and> activeGames s gid = Some g
        \<and> status g = In_progress \<and> game_players g = [p0, p1] \<and> (p = p0 \<or> p = p1)
        \<and> findIndex (\<lambda>q. q = p) [p0, p1] = currentTurn g
        \<and> readyState s (ws (heap s (if p = p0 then p1 else p0)))
      \<longrightarrow> handleFire s c xy =
            Return (s, [(ws (heap s (if p = p0 then p1 else p0)), Opponent_fire xy)]))"
proof -
  have st: "stateOf (handleFire s c xy) = s" by (rule handleFire_state)
  have "fst (onMessage s c (Fire xy)) = s"
    using st by (cases "handleFire s c xy") (auto simp: onMessage_def handleClientMessage_def)
  moreover have "players s c = Some p \<and> gameId (heap s p) = Some gid
        \<and> activeGames s gid = Some g
        \<and> status g = In_progress \<and> game_players g = [p0, p1] \<and> (p = p0 \<or> p = p1)
        \<and> findIndex (\<lambda>q. q = p) [p0, p1] = currentTurn g
        \<and> readyState s (ws (heap s (if p = p0 then p1 else p0)))
      \<longrightarrow> handleFire s c xy =
            Return (s, [(ws (heap s (if p = p0 then p1 else p0)), Opponent_fire xy)])"
    by (auto simp: handleFire_def Let_def at_pair sendMessage_def split: if_splits)
  ultimately show ?thesis using st by simp
qed

theorem handleFire_mutates_nothing_witness:
  "players sessionInProgress 2 = Some 1 \<and> gameId (heap sessionInProgress 1) = Some 2
   \<and> activeGames sessionInProgress 2 =
       Some \<lparr>game_id = 2, game_players = [1, 0], currentTurn = 0, status = In_progress,
             winner = None\<rparr>
   \<and> readyState sessionInProgress (ws (heap sessionInProgress 0))
   \<and> ws (heap sessionInProgress 0) = 1
   \<and> handleFire sessionInProgress 2 (4, 1) =
       Return (sessionInProgress, [(1, Opponent_fire (4, 1))])"
proof -
  let ?g = "\<lparr>game_id = 2, game_players = [1, 0], currentTurn = 0, status = In_progress,
             winner = None\<rparr>"
  have h1: "players sessionInProgress 2 = Some 1"
    by (simp add: session_defs server_defs validate_fleet5)
  have h2: "gameId (heap sessionInProgress 1) = Some 2"
    by (simp add: session_defs server_defs validate_fleet5)
  have h3: "activeGames sessionInProgress 2 = Some ?g"
    by (simp add: session_defs server_defs validate_fleet5)
  have h4: "ws (heap sessionInProgress 0) = 1"
    by (simp add: session_defs server_defs validate_fleet5)
  have h5: "readyState sessionInProgress (ws (heap sessionInProgress 0))"
    by (simp add: session_defs server_defs validate_fleet5)
  show ?thesis
    using h1 h2 h3 h4 h5
      handleFire_mutates_nothing [of sessionInProgress 2 "(4, 1)" 1 2 ?g 1 0]
    by simp
qed

subsection \<open>Reported outcomes\<close>

lemma handleFireResult_member:
  assumes "players s c = Some p" "gameId (heap s p) = Some gid" "activeGames s gid = Some g"
    and "game_players g = [p0, p1]" and "p = p0 \<or> p = p1"
  shows "handleFireResult s c xy res sunk =
     Return (s\<lparr>activeGames := (activeGames s)(gid \<mapsto> g\<lparr>currentTurn := 1 - currentTurn g\<rparr>)\<rparr>,
             sendMessage s (ws (heap s (if p = p0 then p1 else p0))) (Shot_result xy res sunk)
             @ sendMessage s (ws (heap s p0)) (Turn_change (0 = 1 - currentTurn g))
             @ sendMessage s (ws (heap s p1)) (Turn_change (1 = 1 - currentTurn g)))"
  using assms
  by (auto simp: handleFireResult_def checkAllShipsSunk_def Let_def at_pair announceTurn_pair
      sendMessage_def)

text \<open>
  When the player registered on the connection is a member of a session in the map, a
  \<open>fire_result\<close> is handled in one way whatever its result, the session's status and
  its \<open>currentTurn\<close>: \<open>shot_result\<close> goes to the other member, \<open>currentTurn\<close>
  becomes \<open>1 - currentTurn\<close>, and \<open>turn_change\<close> goes to both members, true for the
  one whose index is the new \<open>currentTurn\<close>. Both members' connections are open. The
  instance below is a session still in setup.
\<close>

lemma handleFireResult_registered:
  assumes "players s c = Some p" "gameId (heap s p) = Some gid" "activeGames s gid = Some g"
    and "game_players g = [p0, p1]" and "p = p0 \<or> p = p1"
    and "readyState s (ws (heap s p0))" and "readyState s (ws (heap s p1))"
  shows "handleFireResult s c xy res sunk =
     Return (s\<lparr>activeGames := (activeGames s)(gid \<mapsto> g\<lparr>currentTurn := 1 - currentTurn g\<rparr>)\<rparr>,
             [(ws (heap s (if p = p0 then p1 else p0)), Shot_result xy res sunk),
              (ws (heap s p0), Turn_change (0 = 1 - currentTurn g)),
              (ws (heap s p1), Turn_change (1 = 1 - currentTurn g))])"
  using assms handleFireResult_member [OF assms(1-5), of xy res sunk]
  by (auto simp: sendMessage_def)

lemma handleFireResult_registered_instance:
  "players sessionSetup 2 = Some 1 \<and> gameId (heap sessionSetup 1) = Some 2
   \<and> activeGames sessionSetup 2 =
       Some \<lparr>game_id = 2, game_players = [1, 0], currentTurn = 0, status = Setup,
             winner = None\<rparr>
   \<and> readyState sessionSetup (ws (heap sessionSetup 1))
   \<and> readyState sessionSetup (ws (heap sessionSetup 0))
   \<and> ws (heap sessionSetup 1) = 2 \<and> ws (heap sessionSetup 0) = 1
   \<and> sentBy (handleFireResult sessionSetup 2 (0, 0) ''hit'' None) =
       [(1, Shot_result (0, 0) ''hit'' None), (2, Turn_change False), (1, Turn_change True)]
   \<and> activeGames (stateOf (handleFireResult sessionSetup 2 (0, 0) ''hit'' None)) 2 =
       Some \<lparr>game_id = 2, game_players = [1, 0], currentTurn = 1, status = Setup,
             winner = None\<rparr>"
proof -
  let ?g = "\<lparr>game_id = 2, game_players = [1, 0], currentTurn = 0, status = Setup,
             winner = None\<rparr>"
  have h1: "players sessionSetup 2 = Some 1"
    by (simp add: session_defs server_defs)
  have h2: "gameId (heap sessionSetup 1) = Some 2"
    by (simp add: session_defs server_defs)
  have h3: "activeGames sessionSetup 2 = Some ?g"
    by (simp add: session_defs server_defs)
  have h4: "game_players ?g = [1, 0]" by simp
  have h5: "(1::nat) = 1 \<or> (1::nat) = 0" by simp
  have w1: "ws (heap sessionSetup 1) = 2"
    by (simp add: session_defs server_defs)
  have w0: "ws (heap sessionSetup 0) = 1"
    by (simp add: session_defs server_defs)
  have h6: "readyState sessionSetup (ws (heap sessionSetup 1))"
    by (simp add: session_defs server_defs)
  have h7: "readyState sessionSetup (ws (heap sessionSetup 0))"
    by (simp add: session_defs server_defs)
  show ?thesis
    using h1 h2 h3 h6 h7 w1 w0
      handleFireResult_registered [OF h1 h2 h3 h4 h5 h6 h7, of "(0, 0)" "''hit''" None]
    by simp
qed

text \<open>
  C6. Every in-session \<open>fire_result\<close> reporting \<open>miss\<close> is to flip \<open>currentTurn\<close>
  and to send \<open>turn_change\<close> to both parties. The handler finds the sender by
  \<open>this.players.get(ws)\<close>, and a second \<open>join_game\<close> on a connection overwrites
  that entry. With A (connection 1) and B (connection 2) in a session in progress and a
  second join on connection 1, the \<open>fire\<close> of B is relayed to connection 1, which is
  still the connection of A; the \<open>miss\<close> sent back on it is answered with
  \<open>Player not in a game\<close>, and the state is the one before: \<open>currentTurn\<close> is not
  flipped and no \<open>turn_change\<close> is sent.
\<close>

theorem fire_result_miss_after_rejoin_rejected:
  "ws (heap sessionRejoinedFirst 0) = 1
   \<and> players sessionRejoinedFirst 1 = Some 3
   \<and> activeGames sessionRejoinedFirst 2 =
       Some \<lparr>game_id = 2, game_players = [1, 0], currentTurn = 0, status = In_progress,
             winner = None\<rparr>
   \<and> handleFire sessionRejoinedFirst 2 (4, 1) =
       Return (sessionRejoinedFirst, [(1, Opponent_fire (4, 1))])
   \<and> handleFireResult sessionRejoinedFirst 1 (4, 1) ''miss'' None =
       Return (sessionRejoinedFirst, [(1, Error ''Player not in a game'')])"
  by (simp add: session_defs server_defs validate_fleet5)

text \<open>
  C10. A \<open>fire_result\<close> whose sender is a member of an existing session is to be
  relayed as \<open>shot_result\<close> and followed by the flip of \<open>currentTurn\<close> and
  \<open>turn_change\<close> to both, whatever the session's status. With the session of A and B
  still in setup and a second join on connection 1, a \<open>fire_result\<close> on connection 1,
  the connection of the member A, is answered with \<open>Player not in a game\<close>; nothing
  is relayed and the state is the one before.
\<close>

theorem fire_result_after_rejoin_rejected_in_setup:
  "ws (heap sessionRejoinedSetup 0) = 1
   \<and> players sessionRejoinedSetup 1 = Some 3
   \<and> activeGames sessionRejoinedSetup 2 =
       Some \<lparr>game_id = 2, game_players = [1, 0], currentTurn = 0, status = Setup,
             winner = None\<rparr>
   \<and> handleFireResult sessionRejoinedSetup 1 (0, 0) ''hit'' None =
       Return (sessionRejoinedSetup, [(1, Error ''Player not in a game'')])"
  by (simp add: session_defs server_defs)

subsection \<open>Disconnection\<close>

text \<open>
  When the player registered on the closing connection is a member of a session in the
  map and the other member's connection is open, \<open>handleDisconnection\<close> sends one
  envelope in all, \<open>game_end\<close> to the other member with that member's name as winner
  and the reason \<open>opponent_disconnected\<close>, and deletes the session from the session
  map; a later disconnection of any player whose \<open>gameId\<close> is that session's sends
  nothing. This holds whatever the session's status, so for one in progress.
\<close>

lemma handleDisconnection_registered:
  assumes "players s c = Some p" "gameId (heap s p) = Some gid" "activeGames s gid = Some g"
    and "game_players g = [p0, p1]" and "p = p0 \<or> p = p1" and "p0 \<noteq> p1"
    and "readyState s (ws (heap s (if p = p0 then p1 else p0)))"
  shows "snd (handleDisconnection s c) =
           [(ws (heap s (if p = p0 then p1 else p0)),
             Game_end (name (heap s (if p = p0 then p1 else p0)))
                      (Some ''opponent_disconnected''))]
     \<and> activeGames (fst (handleDisconnection s c)) gid = None
     \<and> (\<forall>c2 q. players (fst (handleDisconnection s c)) c2 = Some q
                \<and> gameId (heap (fst (handleDisconnection s c)) q) = Some gid
           \<longrightarrow> snd (handleDisconnection (fst (handleDisconnection s c)) c2) = [])"
proof -
  let ?s' = "fst (handleDisconnection s c)"
  have sent: "snd (handleDisconnection s c) =
           [(ws (heap s (if p = p0 then p1 else p0)),
             Game_end (name (heap s (if p = p0 then p1 else p0)))
                      (Some ''opponent_disconnected''))]"
    using assms by (auto simp: handleDisconnection_def Let_def sendMessage_def)
  have gone: "activeGames ?s' gid = None"
    using assms by (auto simp: handleDisconnection_def Let_def)
  have "snd (handleDisconnection ?s' c2) = []"
    if "players ?s' c2 = Some q" "gameId (heap ?s' q) = Some gid" for c2 q
    using that gone by (auto simp: handleDisconnection_def [of ?s' c2] Let_def)
  with sent gone show ?thesis by blast
qed

lemma handleDisconnection_registered_instance:
  "players sessionInProgress 1 = Some 0 \<and> gameId (heap sessionInProgress 0) = Some 2
   \<and> activeGames sessionInProgress 2 =
       Some \<lparr>game_id = 2, game_players = [1, 0], currentTurn = 0, status = In_progress,
             winner = None\<rparr>
   \<and> readyState sessionInProgress (ws (heap sessionInProgress 1))
   \<and> ws (heap sessionInProgress 1) = 2 \<and> name (heap sessionInProgress 1) = ''B''
   \<and> snd (handleDisconnection sessionInProgress 1) =
       [(2, Game_end ''B'' (Some ''opponent_disconnected''))]
   \<and> activeGames (fst (handleDisconnection sessionInProgress 1)) 2 = None
   \<and> players (fst (handleDisconnection sessionInProgress 1)) 2 = Some 1
   \<and> gameId (heap (fst (handleDisconnection sessionInProgress 1)) 1) = Some 2
   \<and> snd (handleDisconnection (fst (handleDisconnection sessionInProgress 1)) 2) = []"
proof -
  let ?g = "\<lparr>game_id = 2, game_players = [1, 0], currentTurn = 0, status = In_progress,
             winner = None\<rparr>"
  let ?s' = "fst (handleDisconnection sessionInProgress 1)"
  have h1: "players sessionInProgress 1 = Some 0"
    by (simp add: session_defs server_defs validate_fleet5)
  have h2: "gameId (heap sessionInProgress 0) = Some 2"
    by (simp add: session_defs server_defs validate_fleet5)
  have h3: "activeGames sessionInProgress 2 = Some ?g"
    by (simp add: session_defs server_defs validate_fleet5)
  have h4: "game_players ?g = [1, 0]" by simp
  have h5: "(0::nat) = 1 \<or> (0::nat) = 0" by simp
  have h6: "(1::nat) \<noteq> 0" by simp
  have w1: "ws (heap sessionInProgress 1) = 2"
    by (simp add: session_defs server_defs validate_fleet5)
  have n1: "name (heap sessionInProgress 1) = ''B''"
    by (simp add: session_defs server_defs validate_fleet5)
  have h7: "readyState sessionInProgress (ws (heap sessionInProgress (if (0::nat) = 1 then 0 else 1)))"
    by (simp add: session_defs server_defs validate_fleet5)
  have k1: "players ?s' 2 = Some 1"
    by (simp add: session_defs server_defs validate_fleet5)
  have k2: "gameId (heap ?s' 1) = Some 2"
    by (simp add: session_defs server_defs validate_fleet5)
  note inst = handleDisconnection_registered [OF h1 h2 h3 h4 h5 h6 h7]
  from inst k1 k2 have "snd (handleDisconnection ?s' 2) = []" by blast
  with inst h1 h2 h3 h7 w1 n1 k1 k2 show ?thesis by simp
qed

text \<open>
  C7. The disconnection of one party of a session in progress is to send one
  \<open>game_end\<close> with reason \<open>opponent_disconnected\<close> to the remaining party and to
  remove the session. \<open>handleDisconnection\<close> finds the party by
  \<open>this.players.get(ws)\<close>, the entry that a second \<open>join_game\<close> overwrites. With
  A and B in a session in progress and a second join on connection 2, the connection of
  B, the close of connection 2 sends nothing: the session stays in the map, in progress,
  and A, whose connection 1 is open, is not told.
\<close>

theorem disconnection_after_rejoin_strands_session:
  "ws (heap sessionRejoinedSecond 1) = 2
   \<and> players sessionRejoinedSecond 2 = Some 3
   \<and> activeGames sessionRejoinedSecond 2 =
       Some \<lparr>game_id = 2, game_players = [1, 0], currentTurn = 0, status = In_progress,
             winner = None\<rparr>
   \<and> snd (onClose sessionRejoinedSecond 2) = []
   \<and> activeGames (fst (onClose sessionRejoinedSecond 2)) 2 =
       Some \<lparr>game_id = 2, game_players = [1, 0], currentTurn = 0, status = In_progress,
             winner = None\<rparr>
   \<and> ws (heap (fst (onClose sessionRejoinedSecond 2)) 0) = 1
   \<and> readyState (fst (onClose sessionRejoinedSecond 2)) 1"
  by (simp add: session_defs server_defs validate_fleet5)

subsection \<open>The session reference of a player\<close>

lemma set_splice1: "set (splice1 xs i) \<subseteq> set xs"
  by (auto simp: splice1_def dest: in_set_takeD in_set_dropD)

lemma distinct_splice1: "distinct xs \<Longrightarrow> distinct (splice1 xs i)"
proof -
  assume d: "distinct xs"
  have "distinct (take (nat i) xs @ drop (nat i) xs)" using d by simp
  then have "set (take (nat i) xs) \<inter> set (drop (nat i) xs) = {}" by (simp only: distinct_append)
  moreover have "set (drop (nat i + 1) xs) \<subseteq> set (drop (nat i) xs)"
    by (metis drop_drop set_drop_subset add.commute)
  ultimately show ?thesis using d by (auto simp: splice1_def)
qed

lemma inv_init: "gameIdInv init"
  by (simp add: gameIdInv_def init_def)

lemma inv_join: "gameIdInv s \<Longrightarrow> gameIdInv (fst (handleJoinGame s c nm))"
  by (cases "waitingPlayers s")
    (auto simp: gameIdInv_def handleJoinGame_def createGame_def Let_def less_Suc_eq
      split: if_splits)

lemma inv_setup: "gameIdInv s \<Longrightarrow> gameIdInv (fst (handleSetupComplete s c shs))"
  unfolding handleSetupComplete_def Let_def
  by (auto simp: gameIdInv_def split: option.splits)

lemma handleFireResult_state:
  "stateOf (handleFireResult s c xy res sunk) = s
   \<or> (\<exists>gid g. activeGames s gid = Some g
         \<and> stateOf (handleFireResult s c xy res sunk) =
             s\<lparr>activeGames := (activeGames s)(gid \<mapsto> g\<lparr>currentTurn := 1 - currentTurn g\<rparr>)\<rparr>)"
  by (auto simp: handleFireResult_def checkAllShipsSunk_def Let_def split: option.splits)

lemma inv_turn:
  "gameIdInv s \<Longrightarrow> activeGames s gid = Some g \<Longrightarrow>
   gameIdInv (s\<lparr>activeGames := (activeGames s)(gid \<mapsto> g\<lparr>currentTurn := t\<rparr>)\<rparr>)"
  by (auto simp: gameIdInv_def)

lemma inv_fireResult: "gameIdInv s \<Longrightarrow> gameIdInv (stateOf (handleFireResult s c xy res sunk))"
  using handleFireResult_state [of s c xy res sunk] inv_turn by metis

lemma disc_heap: "heap (fst (handleDisconnection s c)) = heap s"
  by (simp add: handleDisconnection_def Let_def split: option.splits)

lemma disc_next: "nextUuid (fst (handleDisconnection s c)) = nextUuid s"
  by (simp add: handleDisconnection_def Let_def split: option.splits)

lemma disc_games:
  "activeGames (fst (handleDisconnection s c)) k = Some g \<Longrightarrow> activeGames s k = Some g"
  by (simp add: handleDisconnection_def Let_def split: option.splits if_splits)

lemma disc_waiting:
  "waitingPlayers (fst (handleDisconnection s c)) = waitingPlayers s
   \<or> (\<exists>i. waitingPlayers (fst (handleDisconnection s c)) = splice1 (waitingPlayers s) i)"
  by (auto simp: handleDisconnection_def Let_def split: option.splits)

lemma inv_disconnect: "gameIdInv s \<Longrightarrow> gameIdInv (fst (handleDisconnection s c))"
proof -
  assume inv: "gameIdInv s"
  let ?s' = "fst (handleDisconnection s c)"
  have sub: "set (waitingPlayers ?s') \<subseteq> set (waitingPlayers s)"
    using disc_waiting [of s c] set_splice1 [of "waitingPlayers s"] by (metis order_refl)
  have dis: "distinct (waitingPlayers ?s')"
    using disc_waiting [of s c] distinct_splice1 [of "waitingPlayers s"] inv
    unfolding gameIdInv_def by metis
  show ?thesis
    unfolding gameIdInv_def disc_heap disc_next
    using inv sub dis disc_games [of s c] unfolding gameIdInv_def by blast
qed

lemma onMessage_state: "fst (onMessage s c m) = stateOf (handleClientMessage s c m)"
  by (cases "handleClientMessage s c m") (simp_all add: onMessage_def)

lemma inv_readyState: "gameIdInv (s\<lparr>readyState := f\<rparr>) = gameIdInv s"
  by (simp add: gameIdInv_def)

lemma inv_step: "gameIdInv s \<Longrightarrow> gameIdInv (step s e)"
proof (cases e)
  case (Message c m)
  assume inv: "gameIdInv s"
  show ?thesis
  proof (cases m)
    case (Join_game nm)
    with Message inv_join [OF inv] show ?thesis
      by (simp add: onMessage_state handleClientMessage_def)
  next
    case (Setup_complete shs)
    with Message inv_setup [OF inv] show ?thesis
      by (simp add: onMessage_state handleClientMessage_def)
  next
    case (Fire xy)
    with Message inv show ?thesis
      by (simp add: onMessage_state handleClientMessage_def handleFire_state)
  next
    case (Fire_result xy res sunk)
    with Message inv_fireResult [OF inv] show ?thesis
      by (simp add: onMessage_state handleClientMessage_def)
  next
    case (Other t)
    with Message inv show ?thesis
      by (simp add: onMessage_state handleClientMessage_def)
  qed
next
  case (Close c)
  assume inv: "gameIdInv s"
  with Close show ?thesis
    by (simp add: onClose_def inv_disconnect inv_readyState)
qed

lemma reachable_inv: "reachable s \<Longrightarrow> gameIdInv s"
  by (induction rule: reachable.induct) (simp_all add: inv_init inv_step)

lemma reachable_foldl: "reachable s \<Longrightarrow> reachable (foldl step s evs)"
  by (induction evs arbitrary: s) (simp_all add: reachable_step)

lemma reachable_run: "reachable (run evs)"
  by (simp add: run_def reachable_foldl reachable_init)

lemma live_init: "gameIdLive init"
  by (simp add: gameIdLive_def init_def)

lemma live_join: "gameIdLive s \<Longrightarrow> gameIdLive (fst (handleJoinGame s c nm))"
proof -
  assume live: "gameIdLive s"
  have bound: "gid < nextUuid s" if "gameId (heap s p) = Some gid" for p gid
    using live that by (auto simp: gameIdLive_def)
  have mem: "p \<in> set (game_players g)"
    if "gameId (heap s p) = Some gid" "activeGames s gid = Some g" for p gid g
    using live that by (auto simp: gameIdLive_def)
  show ?thesis
    by (cases "waitingPlayers s")
      (auto simp: gameIdLive_def handleJoinGame_def createGame_def Let_def less_Suc_eq
        split: if_splits dest: bound mem)
qed

lemma live_setup: "gameIdLive s \<Longrightarrow> gameIdLive (fst (handleSetupComplete s c shs))"
  unfolding handleSetupComplete_def Let_def
  by (auto simp: gameIdLive_def split: option.splits if_splits)

lemma live_fireResult:
  "gameIdLive s \<Longrightarrow> gameIdLive (stateOf (handleFireResult s c xy res sunk))"
proof -
  assume live: "gameIdLive s"
  have turn: "gameIdLive (s\<lparr>activeGames := (activeGames s)(gid \<mapsto> g\<lparr>currentTurn := t\<rparr>)\<rparr>)"
    if "activeGames s gid = Some g" for gid g t
    using live that by (auto simp: gameIdLive_def)
  show ?thesis
    using handleFireResult_state [of s c xy res sunk] live turn by metis
qed

lemma live_disconnect: "gameIdLive s \<Longrightarrow> gameIdLive (fst (handleDisconnection s c))"
  unfolding gameIdLive_def disc_heap disc_next using disc_games [of s c] by blast

lemma live_step: "gameIdLive s \<Longrightarrow> gameIdLive (step s e)"
proof (cases e)
  case (Message c m)
  assume live: "gameIdLive s"
  show ?thesis
  proof (cases m)
    case (Join_game nm)
    with Message live_join [OF live] show ?thesis
      by (simp add: onMessage_state handleClientMessage_def)
  next
    case (Setup_complete shs)
    with Message live_setup [OF live] show ?thesis
      by (simp add: onMessage_state handleClientMessage_def)
  next
    case (Fire xy)
    with Message live show ?thesis
      by (simp add: onMessage_state handleClientMessage_def handleFire_state)
  next
    case (Fire_result xy res sunk)
    with Message live_fireResult [OF live] show ?thesis
      by (simp add: onMessage_state handleClientMessage_def)
  next
    case (Other t)
    with Message live show ?thesis
      by (simp add: onMessage_state handleClientMessage_def)
  qed
next
  case (Close c)
  assume live: "gameIdLive s"
  have "gameIdLive (s\<lparr>readyState := (readyState s)(c := False)\<rparr>)"
    using live by (simp add: gameIdLive_def)
  then show ?thesis using Close by (simp add: onClose_def live_disconnect)
qed

lemma reachable_live: "reachable s \<Longrightarrow> gameIdLive s"
proof (induction rule: reachable.induct)
  case reachable_init
  show ?case by (rule live_init)
next
  case (reachable_step s e)
  then show ?case by (simp add: live_step)
qed

text \<open>
  C4, as stated: between message handlings a Player's \<open>gameId\<close> is non-null if and only
  if the Player is a member of exactly one live session, and the survivor's \<open>gameId\<close>
  becomes null when its session is destroyed. Neither \<open>handleDisconnection\<close> nor
  \<open>endGame\<close> writes to a player object. After A and B are paired and A's connection
  closes, B is still registered on connection 2 and its \<open>gameId\<close> is still the
  session's identifier 2, while the session map is empty.
\<close>

theorem gameId_stale_after_disconnection:
  "players sessionAfterClose 2 = Some 1
   \<and> gameId (heap sessionAfterClose 1) = Some 2
   \<and> activeGames sessionAfterClose = Map.empty"
  by (simp add: session_defs server_defs)

text \<open>
  C4, amended: in every state the server reaches from its initial one, and for every
  session in the session map, a Player is a member of the session's pair if and only if
  its \<open>gameId\<close> is the session's identifier. So a Player's \<open>gameId\<close> is the
  identifier of a live session if and only if the Player is a member of exactly one live
  session's pair. A \<open>gameId\<close> is not reset: a disconnection leaves every player
  object, so also the survivor's \<open>gameId\<close>, as it was, and a non-null \<open>gameId\<close>
  may be the identifier of a session that is no longer in the map.
\<close>

theorem member_gameId_is_session:
  assumes "reachable s"
  shows "(\<forall>gid g. activeGames s gid = Some g \<longrightarrow>
            (p \<in> set (game_players g)) = (gameId (heap s p) = Some gid))
     \<and> ((\<exists>gid g. gameId (heap s p) = Some gid \<and> activeGames s gid = Some g)
          = (\<exists>!gid. \<exists>g. activeGames s gid = Some g \<and> p \<in> set (game_players g)))
     \<and> heap (fst (handleDisconnection s c)) = heap s"
proof -
  have inv: "gameIdInv s" using assms by (rule reachable_inv)
  have live: "gameIdLive s" using assms by (rule reachable_live)
  have a: "(p \<in> set (game_players g)) = (gameId (heap s p) = Some gid)"
    if "activeGames s gid = Some g" for gid g
  proof
    assume "p \<in> set (game_players g)"
    with inv that show "gameId (heap s p) = Some gid" by (auto simp: gameIdInv_def)
  next
    assume "gameId (heap s p) = Some gid"
    with live that show "p \<in> set (game_players g)" by (auto simp: gameIdLive_def)
  qed
  have b: "(\<exists>gid g. gameId (heap s p) = Some gid \<and> activeGames s gid = Some g)
          = (\<exists>!gid. \<exists>g. activeGames s gid = Some g \<and> p \<in> set (game_players g))"
  proof
    assume "\<exists>gid g. gameId (heap s p) = Some gid \<and> activeGames s gid = Some g"
    then obtain gid g where g: "gameId (heap s p) = Some gid" "activeGames s gid = Some g"
      by blast
    then have "p \<in> set (game_players g)" using a by blast
    moreover have "gid' = gid"
      if "activeGames s gid' = Some g'" "p \<in> set (game_players g')" for gid' g'
      using that a g(1) by auto
    ultimately show "\<exists>!gid. \<exists>g. activeGames s gid = Some g \<and> p \<in> set (game_players g)"
      using g(2) by blast
  next
    assume "\<exists>!gid. \<exists>g. activeGames s gid = Some g \<and> p \<in> set (game_players g)"
    then obtain gid g where "activeGames s gid = Some g" "p \<in> set (game_players g)"
      by blast
    then show "\<exists>gid g. gameId (heap s p) = Some gid \<and> activeGames s gid = Some g"
      using a by blast
  qed
  have c: "heap (fst (handleDisconnection s c)) = heap s"
    by (rule disc_heap)
  from a b c show ?thesis by blast
qed

theorem member_gameId_is_session_witness:
  "reachable sessionSetup
   \<and> activeGames sessionSetup 2 =
       Some \<lparr>game_id = 2, game_players = [1, 0], currentTurn = 0, status = Setup,
             winner = None\<rparr>
   \<and> gameId (heap sessionSetup 0) = Some 2
   \<and> gameId (heap sessionSetup 5) \<noteq> Some 2
   \<and> gameId (heap (fst (handleDisconnection sessionSetup 1)) 1) = Some 2"
proof -
  let ?g = "\<lparr>game_id = 2, game_players = [1, 0], currentTurn = 0, status = Setup,
             winner = None\<rparr>"
  have h1: "reachable sessionSetup"
    by (simp add: sessionSetup_def reachable_run)
  have h2: "activeGames sessionSetup 2 = Some ?g"
    by (simp add: session_defs server_defs)
  have "(0 \<in> set (game_players ?g)) = (gameId (heap sessionSetup 0) = Some 2)"
    using member_gameId_is_session [OF h1, of 0] h2 by blast
  then have m0: "gameId (heap sessionSetup 0) = Some 2" by simp
  have "(5 \<in> set (game_players ?g)) = (gameId (heap sessionSetup 5) = Some 2)"
    using member_gameId_is_session [OF h1, of 5] h2 by blast
  then have m5: "gameId (heap sessionSetup 5) \<noteq> Some 2" by simp
  have "(1 \<in> set (game_players ?g)) = (gameId (heap sessionSetup 1) = Some 2)"
    and "heap (fst (handleDisconnection sessionSetup 1)) = heap sessionSetup"
    using member_gameId_is_session [OF h1, of 1 1] h2 by blast+
  then have m1: "gameId (heap (fst (handleDisconnection sessionSetup 1)) 1) = Some 2" by simp
  from h1 h2 m0 m5 m1 show ?thesis by blast
qed

subsection \<open>Winning\<close>

lemma handleFireResult_no_game_end:
  "(c', Game_end w r) \<notin> set (sentBy (handleFireResult s c xy res sunk))"
  by (auto simp: handleFireResult_def checkAllShipsSunk_def Let_def sendError_def
      sendMessage_def announceTurn_def split: option.splits if_splits)

lemma nf_join: "neverFinished s \<Longrightarrow> neverFinished (fst (handleJoinGame s c nm))"
  by (cases "waitingPlayers s")
    (auto simp: neverFinished_def handleJoinGame_def createGame_def Let_def split: if_splits)

lemma nf_setup: "neverFinished s \<Longrightarrow> neverFinished (fst (handleSetupComplete s c shs))"
  unfolding handleSetupComplete_def Let_def
  by (auto simp: neverFinished_def split: option.splits)

lemma nf_fireResult:
  "neverFinished s \<Longrightarrow> neverFinished (stateOf (handleFireResult s c xy res sunk))"
proof -
  assume nf: "neverFinished s"
  have turn: "neverFinished (s\<lparr>activeGames := (activeGames s)(gid \<mapsto> g\<lparr>currentTurn := t\<rparr>)\<rparr>)"
    if "activeGames s gid = Some g" for gid g t
    using nf that by (auto simp: neverFinished_def)
  show ?thesis
    using handleFireResult_state [of s c xy res sunk] nf turn by metis
qed

lemma nf_disconnect: "neverFinished s \<Longrightarrow> neverFinished (fst (handleDisconnection s c))"
  unfolding neverFinished_def using disc_games [of s c] by blast

lemma nf_step: "neverFinished s \<Longrightarrow> neverFinished (step s e)"
proof (cases e)
  case (Message c m)
  assume nf: "neverFinished s"
  show ?thesis
  proof (cases m)
    case (Join_game nm)
    with Message nf_join [OF nf] show ?thesis
      by (simp add: onMessage_state handleClientMessage_def)
  next
    case (Setup_complete shs)
    with Message nf_setup [OF nf] show ?thesis
      by (simp add: onMessage_state handleClientMessage_def)
  next
    case (Fire xy)
    with Message nf show ?thesis
      by (simp add: onMessage_state handleClientMessage_def handleFire_state)
  next
    case (Fire_result xy res sunk)
    with Message nf_fireResult [OF nf] show ?thesis
      by (simp add: onMessage_state handleClientMessage_def)
  next
    case (Other t)
    with Message nf show ?thesis
      by (simp add: onMessage_state handleClientMessage_def)
  qed
next
  case (Close c)
  assume nf: "neverFinished s"
  have "neverFinished (s\<lparr>readyState := (readyState s)(c := False)\<rparr>)"
    using nf by (simp add: neverFinished_def)
  then show ?thesis using Close by (simp add: onClose_def nf_disconnect)
qed

lemma reachable_neverFinished: "reachable s \<Longrightarrow> neverFinished s"
proof (induction rule: reachable.induct)
  case reachable_init
  show ?case by (simp add: neverFinished_def init_def)
next
  case (reachable_step s e)
  then show ?case by (simp add: nf_step)
qed

text \<open>
  C1. A \<open>fire_result\<close> with result \<open>hit\<close> that sinks the defender's last ship is to
  finish the session with the shooter as winner and send \<open>game_end\<close> to both. The
  handler calls \<open>endGame\<close> only if \<open>checkAllShipsSunk\<close> holds, and that function
  returns \<open>false\<close>: no \<open>fire_result\<close> is answered with \<open>game_end\<close>, and no
  session the server reaches is finished or has a winner. In the in-progress session of
  A and B, after \<open>fire\<close> at (4,1) by B (index 0), A's report of a hit that sank the
  destroyer is relayed, the turn passes to A, and the session stays in the map, in
  progress and with no winner.
\<close>

theorem fire_result_final_hit_does_not_end_game:
  "handleFire sessionInProgress 2 (4, 1) =
     Return (sessionInProgress, [(1, Opponent_fire (4, 1))])
   \<and> sentBy (handleFireResult sessionInProgress 1 (4, 1) ''hit'' (Some ''destroyer'')) =
       [(2, Shot_result (4, 1) ''hit'' (Some ''destroyer'')),
        (2, Turn_change False), (1, Turn_change True)]
   \<and> activeGames
        (stateOf (handleFireResult sessionInProgress 1 (4, 1) ''hit'' (Some ''destroyer''))) 2 =
       Some \<lparr>game_id = 2, game_players = [1, 0], currentTurn = 1, status = In_progress,
             winner = None\<rparr>"
  by (simp add: session_defs server_defs validate_fleet5)

end
